theory Spec2Isabelle
  imports Main "HOL-Library.Word"
begin

text \<open>
  A shallow embedding of the x402 backend: the proof codec and the signature verifier of
  \<^verbatim>\<open>verify.js\<close>, the class \<^verbatim>\<open>NonceStore\<close>, and the handlers \<^verbatim>\<open>send402\<close> and
  \<^verbatim>\<open>handlePremium\<close> of the server, with the properties of the specification proved
  about them.
\<close>

section \<open>Values of the JavaScript runtime\<close>

text \<open>
  Strings are lists of code units. Header values reach the handlers as Latin-1 strings,
  so a \<^typ>\<open>char\<close> (one of 256 values) is one code unit. Buffers are lists of bytes.
  A computation that may throw returns \<open>exn + 'a\<close>, with \<open>Inl\<close> the exception;
  \<open>try_catch\<close> is the \<^verbatim>\<open>try { ... } catch (e) { ... }\<close> statement.
\<close>

type_synonym byte = "8 word"
type_synonym bytes = "byte list"

datatype exn = Error string

definition try_catch :: "exn + 'a \<Rightarrow> (exn \<Rightarrow> exn + 'a) \<Rightarrow> exn + 'a" where
  "try_catch body handler = (case body of Inl e \<Rightarrow> handler e | Inr v \<Rightarrow> Inr v)"

definition bind_exn :: "exn + 'a \<Rightarrow> ('a \<Rightarrow> exn + 'b) \<Rightarrow> exn + 'b" where
  "bind_exn m f = (case m of Inl e \<Rightarrow> Inl e | Inr v \<Rightarrow> f v)"

subsection \<open>\<^verbatim>\<open>String.prototype.split(':')\<close>\<close>

text \<open>
  Splitting on the one-character separator gives the segments between the colons, empty
  ones included; the empty string gives one empty segment.
\<close>

fun split_colon :: "string \<Rightarrow> string list" where
  "split_colon [] = [[]]"
| "split_colon (c # cs) =
     (if c = CHR '':'' then [] # split_colon cs
      else (case split_colon cs of
              [] \<Rightarrow> [[c]]
            | p # ps \<Rightarrow> (c # p) # ps))"

subsection \<open>\<^verbatim>\<open>String.prototype.toLowerCase\<close> on Latin-1 code units\<close>

definition toLowerChar :: "char \<Rightarrow> char" where
  "toLowerChar c =
     (let n = (of_char c :: nat)
      in if (65 \<le> n \<and> n \<le> 90) \<or> (192 \<le> n \<and> n \<le> 222 \<and> n \<noteq> 215)
         then char_of (n + 32) else c)"

definition toLowerCase :: "string \<Rightarrow> string" where
  "toLowerCase s = map toLowerChar s"

text \<open>
  The specification's comparison of two strings without regard to letter case, stated
  on the code units and without \<open>toLowerCase\<close>: the strings have the same length and,
  position by position, the units are equal or are the capital and the small form of
  one letter. The capital letters of Latin-1 are \<open>A\<close> to \<open>Z\<close> (65 to 90) and 192 to 222
  without the multiplication sign 215; the small form lies 32 above.
\<close>

definition capital :: "nat \<Rightarrow> bool" where
  "capital n = ((65 \<le> n \<and> n \<le> 90) \<or> (192 \<le> n \<and> n \<le> 222 \<and> n \<noteq> 215))"

definition same_letter :: "char \<Rightarrow> char \<Rightarrow> bool" where
  "same_letter c d =
     (c = d \<or> (capital (of_char c) \<and> (of_char d :: nat) = of_char c + 32)
            \<or> (capital (of_char d) \<and> (of_char c :: nat) = of_char d + 32))"

definition eq_ignoring_case :: "string \<Rightarrow> string \<Rightarrow> bool" where
  "eq_ignoring_case r a = list_all2 same_letter r a"

subsection \<open>Base64\<close>

text \<open>
  \<open>toBase64\<close> is the standard encoding with padding (RFC 4648, section 4), what a client
  applies to the signature bytes. \<open>Buffer_from_base64\<close> is \<^verbatim>\<open>Buffer.from(s, 'base64')\<close>
  of the Node.js runtime on a string: the decoder is lenient and never throws. A code
  unit outside the alphabet is skipped, \<^verbatim>\<open>+\<close> and \<^verbatim>\<open>-\<close> both stand for 62, \<^verbatim>\<open>/\<close> and
  \<^verbatim>\<open>_\<close> both for 63, and decoding ends at the first \<^verbatim>\<open>=\<close>.
\<close>

definition b64chars :: string where
  "b64chars = ''ABCDEFGHIJKLMNOPQRSTUVWXYZabcdefghijklmnopqrstuvwxyz0123456789+/''"

definition b64 :: "nat \<Rightarrow> char" where
  "b64 v = b64chars ! v"

fun toBase64 :: "bytes \<Rightarrow> string" where
  "toBase64 [] = []"
| "toBase64 [a] =
     [b64 (unat a div 4), b64 ((unat a mod 4) * 16), CHR ''='', CHR ''='']"
| "toBase64 [a, b] =
     [b64 (unat a div 4), b64 ((unat a mod 4) * 16 + unat b div 16),
      b64 ((unat b mod 16) * 4), CHR ''='']"
| "toBase64 (a # b # c # rest) =
     [b64 (unat a div 4), b64 ((unat a mod 4) * 16 + unat b div 16),
      b64 ((unat b mod 16) * 4 + unat c div 64), b64 (unat c mod 64)] @ toBase64 rest"

definition unbase64 :: "char \<Rightarrow> nat option" where
  "unbase64 c =
     (if c = CHR ''-'' then Some 62
      else if c = CHR ''_'' then Some 63
      else map_of (zip b64chars [0..<64]) c)"

fun sextets :: "string \<Rightarrow> nat list" where
  "sextets [] = []"
| "sextets (c # cs) =
     (case unbase64 c of
        Some v \<Rightarrow> v # sextets cs
      | None \<Rightarrow> if c = CHR ''='' then [] else sextets cs)"

fun fromSextets :: "nat list \<Rightarrow> bytes" where
  "fromSextets (v1 # v2 # v3 # v4 # rest) =
     [of_nat (v1 * 4 + v2 div 16), of_nat ((v2 mod 16) * 16 + v3 div 4),
      of_nat ((v3 mod 4) * 64 + v4)] @ fromSextets rest"
| "fromSextets [v1, v2, v3] =
     [of_nat (v1 * 4 + v2 div 16), of_nat ((v2 mod 16) * 16 + v3 div 4)]"
| "fromSextets [v1, v2] = [of_nat (v1 * 4 + v2 div 16)]"
| "fromSextets [v1] = []"
| "fromSextets [] = []"

definition Buffer_from_base64 :: "string \<Rightarrow> exn + bytes" where
  "Buffer_from_base64 s = Inr (fromSextets (sextets s))"

text \<open>
  What the codec's contract calls valid standard base64 (RFC 4648, section 4); the
  program has no such test. A string is standard base64 when its length is a multiple
  of four, it consists of characters of the alphabet, and it ends with at most two
  padding characters.
\<close>

definition is_standard_base64 :: "string \<Rightarrow> bool" where
  "is_standard_base64 s =
     (length s mod 4 = 0 \<and>
      list_all (\<lambda>c. c \<in> set b64chars) (takeWhile (\<lambda>c. c \<noteq> CHR ''='') s) \<and>
      (dropWhile (\<lambda>c. c \<noteq> CHR ''='') s = [] \<or>
       dropWhile (\<lambda>c. c \<noteq> CHR ''='') s = ''='' \<or>
       dropWhile (\<lambda>c. c \<noteq> CHR ''='') s = ''==''))"

section \<open>Proof codec (verify.js)\<close>

datatype reason =
    missing_header | bad_format | bad_kind | bad_b64
  | phantom_verify_error | metamask_verify_error | unknown_kind
  | nonce_not_found | nonce_expired | nonce_replayed

record proof_header =
  kind :: string
  account :: string
  nonce :: string
  sigBytes :: bytes

text \<open>
  The result of \<open>parseProof\<close> is \<^verbatim>\<open>{ ok: false, reason }\<close> or
  \<^verbatim>\<open>{ ok: true, kind, account, nonce, sigBytes }\<close>. The header is \<open>None\<close> when the
  value is absent or not a string.
\<close>

datatype parsed = ParseFail reason | Parsed proof_header


definition parseProof :: "string option \<Rightarrow> parsed" where
  "parseProof header =
     (case header of
        None \<Rightarrow> ParseFail missing_header
      | Some h \<Rightarrow>
          if h = [] then ParseFail missing_header
          else (case split_colon h of
                  [k, a, n, b64sig] \<Rightarrow>
                    if k \<noteq> ''phantom'' \<and> k \<noteq> ''metamask'' then ParseFail bad_kind
                    else (case Buffer_from_base64 b64sig of
                            Inl e \<Rightarrow> ParseFail bad_b64
                          | Inr sb \<Rightarrow>
                              Parsed \<lparr>kind = k, account = a, nonce = n, sigBytes = sb\<rparr>)
                | _ \<Rightarrow> ParseFail bad_format))"

section \<open>Signature verifier (verify.js)\<close>

text \<open>
  A verdict is the object \<^verbatim>\<open>{ ok, reason, who, chain }\<close>; a field the object does not
  have is \<open>None\<close>. The three library calls are parameters: \<open>bs58_decode\<close> is
  \<^verbatim>\<open>bs58.decode\<close>, \<open>nacl_verify msg sig pub\<close> is \<^verbatim>\<open>nacl.sign.detached.verify\<close> and
  \<open>verifyMessage msg hexSig\<close> is the address recovery of ethers; each may throw.
\<close>

record verdict =
  ok :: bool
  reason :: "reason option"
  who :: "string option"
  chain :: "string option"

record libs =
  bs58_decode :: "string \<Rightarrow> exn + bytes"
  nacl_verify :: "bytes \<Rightarrow> bytes \<Rightarrow> bytes \<Rightarrow> exn + bool"
  verifyMessage :: "string \<Rightarrow> string \<Rightarrow> exn + string"

definition failed :: "reason \<Rightarrow> verdict" where
  "failed r = \<lparr>ok = False, reason = Some r, who = None, chain = None\<rparr>"

definition utf8_unit :: "char \<Rightarrow> bytes" where
  "utf8_unit c =
     (let n = (of_char c :: nat)
      in if n < 128 then [of_nat n] else [of_nat (192 + n div 64), of_nat (128 + n mod 64)])"

definition msgText :: "string \<Rightarrow> string" where
  "msgText n = ''x402-proof:'' @ n"

definition msgBytes :: "string \<Rightarrow> bytes" where
  "msgBytes n = concat (map utf8_unit (msgText n))"

definition hexchars :: string where
  "hexchars = ''0123456789abcdef''"

definition toHex :: "bytes \<Rightarrow> string" where
  "toHex bs = concat (map (\<lambda>b. [hexchars ! (unat b div 16), hexchars ! (unat b mod 16)]) bs)"

definition verifyPhantom :: "libs \<Rightarrow> string \<Rightarrow> bytes \<Rightarrow> string \<Rightarrow> exn + verdict" where
  "verifyPhantom L accountBase58 sb n =
     try_catch
       (bind_exn (bs58_decode L accountBase58) (\<lambda>pub.
        bind_exn (nacl_verify L (msgBytes n) sb pub) (\<lambda>r.
        Inr \<lparr>ok = r, reason = None, who = Some accountBase58, chain = Some ''solana''\<rparr>)))
       (\<lambda>e. Inr (failed phantom_verify_error))"

definition verifyMetaMask :: "libs \<Rightarrow> string \<Rightarrow> bytes \<Rightarrow> string \<Rightarrow> exn + verdict" where
  "verifyMetaMask L accountAddress sb n =
     try_catch
       (bind_exn (verifyMessage L (msgText n) (''0x'' @ toHex sb)) (\<lambda>recovered.
        Inr \<lparr>ok = (toLowerCase recovered = toLowerCase accountAddress), reason = None,
             who = Some recovered, chain = Some ''evm''\<rparr>))
       (\<lambda>e. Inr (failed metamask_verify_error))"

definition verifyProof :: "libs \<Rightarrow> string option \<Rightarrow> exn + verdict" where
  "verifyProof L header =
     (case parseProof header of
        ParseFail r \<Rightarrow> Inr (failed r)
      | Parsed p \<Rightarrow>
          if kind p = ''phantom'' then verifyPhantom L (account p) (sigBytes p) (nonce p)
          else if kind p = ''metamask'' then verifyMetaMask L (account p) (sigBytes p) (nonce p)
          else Inr (failed unknown_kind))"

section \<open>Nonce ledger (class NonceStore)\<close>

text \<open>
  The store is passed explicitly and returned updated. \<open>Date.now()\<close> is the argument
  \<open>now\<close> (milliseconds) of each operation, and the identifier that \<open>uuidv4()\<close> returns
  is the argument \<open>uuid\<close> of \<open>issue\<close>. The time to live is a whole number of seconds.
\<close>

record entry =
  createdAt :: int
  expiresAt :: int
  used :: bool

record NonceStore =
  ttl :: int
  nonce_map :: "string \<rightharpoonup> entry"

datatype nonce_result = NonceOk | NonceFail reason

definition new_NonceStore :: "int \<Rightarrow> NonceStore" where
  "new_NonceStore ttlSeconds = \<lparr>ttl = ttlSeconds, nonce_map = Map.empty\<rparr>"

definition issue :: "string \<Rightarrow> int \<Rightarrow> NonceStore \<Rightarrow> string \<times> NonceStore" where
  "issue uuid now s =
     (uuid, s\<lparr>nonce_map := (nonce_map s)(uuid \<mapsto>
        \<lparr>createdAt = now, expiresAt = now + ttl s * 1000, used = False\<rparr>)\<rparr>)"

definition exists_nonce :: "string \<Rightarrow> NonceStore \<Rightarrow> bool" where
  "exists_nonce n s = (nonce_map s n \<noteq> None)"

definition isExpired :: "string \<Rightarrow> int \<Rightarrow> NonceStore \<Rightarrow> bool" where
  "isExpired n now s = (case nonce_map s n of None \<Rightarrow> True | Some e \<Rightarrow> now > expiresAt e)"

definition isUsed :: "string \<Rightarrow> NonceStore \<Rightarrow> bool" where
  "isUsed n s = (case nonce_map s n of None \<Rightarrow> True | Some e \<Rightarrow> used e)"

definition verifyAndUse :: "string \<Rightarrow> int \<Rightarrow> NonceStore \<Rightarrow> nonce_result \<times> NonceStore" where
  "verifyAndUse n now s =
     (case nonce_map s n of
        None \<Rightarrow> (NonceFail nonce_not_found, s)
      | Some e \<Rightarrow>
          if now > expiresAt e then (NonceFail nonce_expired, s)
          else if used e then (NonceFail nonce_replayed, s)
          else (NonceOk, s\<lparr>nonce_map := (nonce_map s)(n \<mapsto> e\<lparr>used := True\<rparr>)\<rparr>))"

definition gc :: "int \<Rightarrow> NonceStore \<Rightarrow> NonceStore" where
  "gc now s =
     s\<lparr>nonce_map := (\<lambda>n. case nonce_map s n of
                              None \<Rightarrow> None
                            | Some e \<Rightarrow> if used e \<or> now > expiresAt e + 60000 then None
                                        else Some e)\<rparr>"

subsection \<open>Sequences of ledger operations\<close>

text \<open>
  \<open>successes s ops\<close> runs the operations in order from the store \<open>s\<close> and lists, for
  every call of \<open>verifyAndUse\<close> that returned \<^verbatim>\<open>{ ok: true }\<close>, the nonce and the time
  of the call. \<open>issued ops\<close> lists the identifiers that \<open>issue\<close> returned.
\<close>

datatype ledger_op = Issue string int | VerifyAndUse string int | Gc int

fun successes :: "NonceStore \<Rightarrow> ledger_op list \<Rightarrow> (string \<times> int) list" where
  "successes s [] = []"
| "successes s (Issue uuid now # ops) = successes (snd (issue uuid now s)) ops"
| "successes s (VerifyAndUse n now # ops) =
     (case verifyAndUse n now s of
        (NonceOk, s') \<Rightarrow> (n, now) # successes s' ops
      | (NonceFail r, s') \<Rightarrow> successes s' ops)"
| "successes s (Gc now # ops) = successes (gc now s) ops"

fun issued :: "ledger_op list \<Rightarrow> string list" where
  "issued [] = []"
| "issued (Issue uuid now # ops) = uuid # issued ops"
| "issued (VerifyAndUse n now # ops) = issued ops"
| "issued (Gc now # ops) = issued ops"

section \<open>Payment gate (send402, handlePremium)\<close>

text \<open>
  Prices are numbers of the runtime; they stay abstract (type \<open>'p\<close>), and \<open>weiHex\<close> is
  \<^verbatim>\<open>BigInt(Math.floor(PRICE_ETH * 1e18)).toString(16)\<close>, which throws when the product is
  not finite. A handler returns what it sent (status and JSON body) or the exception it
  ended with, the store, and the ledger operations it called, in order:
  \<open>CallIssue n\<close> for a call of \<open>issue\<close> that returned \<open>n\<close>, \<open>CallVerifyAndUse a\<close> for
  \<open>verifyAndUse\<close> on the argument \<open>a\<close> (\<open>None\<close> when the argument is undefined, which is
  never a key of the store). The body \<open>X402 chain receiver amount ttl nonce evmTx\<close> is
  the challenge, \<open>Unlocked who chain timestamp\<close> the premium content.
\<close>

record 'p config =
  TTL_SECONDS :: int
  RECEIVER_SOL :: string
  RECEIVER_EVM :: string
  PRICE_SOL :: 'p
  PRICE_ETH :: 'p
  weiHex :: "'p \<Rightarrow> exn + string"

record request =
  query_chain :: "string option"
  x402_proof :: "string option"

datatype 'p body =
    X402 string string 'p int string "(string \<times> string \<times> string) option"
  | ErrorText string
  | ErrorReason reason
  | Unlocked "string option" "string option" int

datatype 'p outcome = Responded nat "'p body" | Threw exn

datatype ledger_call = CallIssue string | CallVerifyAndUse "string option"

definition send402 ::
  "'p config \<Rightarrow> string \<Rightarrow> string \<Rightarrow> int \<Rightarrow> NonceStore
     \<Rightarrow> 'p outcome \<times> NonceStore \<times> ledger_call list" where
  "send402 cfg ch uuid now s =
     (case issue uuid now s of (n, s1) \<Rightarrow>
        if ch = ''evm'' then
          (if RECEIVER_EVM cfg = [] then
             (Responded 500 (ErrorText ''RECEIVER_EVM not set''), s1, [CallIssue n])
           else (case weiHex cfg (PRICE_ETH cfg) of
                   Inl e \<Rightarrow> (Threw e, s1, [CallIssue n])
                 | Inr wei \<Rightarrow>
                     (Responded 402
                        (X402 ''evm'' (RECEIVER_EVM cfg) (PRICE_ETH cfg) (TTL_SECONDS cfg) n
                           (Some (RECEIVER_EVM cfg, ''0x'' @ wei, ''0x''))),
                      s1, [CallIssue n])))
        else if RECEIVER_SOL cfg = [] then
          (Responded 500 (ErrorText ''RECEIVER_SOL not set''), s1, [CallIssue n])
        else
          (Responded 402
             (X402 ''solana'' (RECEIVER_SOL cfg) (PRICE_SOL cfg) (TTL_SECONDS cfg) n None),
           s1, [CallIssue n]))"

definition chainQuery :: "request \<Rightarrow> string" where
  "chainQuery req = toLowerCase (case query_chain req of None \<Rightarrow> [] | Some c \<Rightarrow> c)"

definition handlePremium ::
  "libs \<Rightarrow> 'p config \<Rightarrow> request \<Rightarrow> string \<Rightarrow> int \<Rightarrow> NonceStore
     \<Rightarrow> 'p outcome \<times> NonceStore \<times> ledger_call list" where
  "handlePremium L cfg req uuid now s =
     (let cq = chainQuery req; provenHeader = x402_proof req
      in if provenHeader \<noteq> None \<and> provenHeader \<noteq> Some [] then
           (case parseProof provenHeader of
              ParseFail r \<Rightarrow> send402 cfg (if cq \<noteq> [] then cq else ''solana'') uuid now s
            | Parsed p \<Rightarrow>
                (case verifyProof L provenHeader of
                   Inl e \<Rightarrow> (Threw e, s, [])
                 | Inr verified \<Rightarrow>
                     if \<not> ok verified then
                       send402 cfg
                         (if cq \<noteq> [] then cq
                          else if kind p = ''metamask'' then ''evm'' else ''solana'')
                         uuid now s
                     else
                       (case parseProof provenHeader of
                          ParseFail r \<Rightarrow>
                            (Responded 402 (ErrorReason nonce_not_found), s, [CallVerifyAndUse None])
                        | Parsed p2 \<Rightarrow>
                            (case verifyAndUse (nonce p2) now s of
                               (NonceFail r, s') \<Rightarrow>
                                 (Responded 402 (ErrorReason r), s',
                                  [CallVerifyAndUse (Some (nonce p2))])
                             | (NonceOk, s') \<Rightarrow>
                                 (Responded 200 (Unlocked (who verified) (chain verified) now),
                                  s', [CallVerifyAndUse (Some (nonce p2))])))))
         else if cq = ''evm'' then send402 cfg ''evm'' uuid now s
         else if cq = ''solana'' then send402 cfg ''solana'' uuid now s
         else send402 cfg (if RECEIVER_SOL cfg \<noteq> [] then ''solana'' else ''evm'') uuid now s)"

section \<open>Example inputs\<close>

text \<open>
  A run of the ledger with a time to live of one second: \<open>n1\<close> is issued, used, offered
  twice more around a collection; \<open>n2\<close> is issued and offered after its expiry.
\<close>

definition demo_ops :: "ledger_op list" where
  "demo_ops = [Issue ''n1'' 0, VerifyAndUse ''n1'' 10, VerifyAndUse ''n1'' 20, Gc 30,
               VerifyAndUse ''n1'' 40, Issue ''n2'' 50, VerifyAndUse ''n2'' 2000]"


definition store_fresh :: NonceStore where
  "store_fresh =
     \<lparr>ttl = 1, nonce_map = [''n1'' \<mapsto> \<lparr>createdAt = 1000, expiresAt = 2000, used = False\<rparr>]\<rparr>"

definition store_used :: NonceStore where
  "store_used =
     \<lparr>ttl = 1, nonce_map = [''n1'' \<mapsto> \<lparr>createdAt = 1000, expiresAt = 2000, used = True\<rparr>]\<rparr>"

text \<open>
  Stand-ins for the three libraries, enough to run the verifier. The key decoding
  throws on the empty account and gives 32 zero bytes otherwise; the detached check
  throws on a signature that is not 64 bytes or a key that is not 32 bytes, as the
  library does, and rejects every other signature; the address recovery gives the
  mixed-case address \<open>0xAbCdEf12\<close> for the signature \<open>0x0102\<close> and throws for any other.
\<close>

definition demo_libs :: libs where
  "demo_libs =
     \<lparr>bs58_decode = (\<lambda>a. if a = [] then Inl (Error ''Non-base58 character'')
                          else Inr (replicate 32 0)),
      nacl_verify = (\<lambda>m sg pub. if length sg \<noteq> 64 then Inl (Error ''bad signature size'')
                                 else if length pub \<noteq> 32
                                 then Inl (Error ''bad public key size'')
                                 else Inr False),
      verifyMessage = (\<lambda>m hexSig. if hexSig = ''0x0102'' then Inr ''0xAbCdEf12''
                                   else Inl (Error ''invalid signature''))\<rparr>"

text \<open>
  A proof header of kind \<open>phantom\<close> with a key of 32 zero bytes in base58 and a
  signature of 64 bytes \<open>0x01\<close> in base64.
\<close>

definition hdr_phantom_rejected :: string where
  "hdr_phantom_rejected =
     ''phantom:11111111111111111111111111111111:n1:'' @
     ''AQEBAQEBAQEBAQEBAQEBAQEBAQEBAQEBAQEBAQEBAQEBAQEBAQEBAQEBAQEBAQEBAQEBAQEBAQEBAQEBAQEBAQ==''"

text \<open>
  Three configurations, prices written as text: no receiver set, both set, and only the
  Solana receiver set.
\<close>

definition cfg_unset :: "string config" where
  "cfg_unset =
     \<lparr>TTL_SECONDS = 300, RECEIVER_SOL = [], RECEIVER_EVM = [],
      PRICE_SOL = ''0.01'', PRICE_ETH = ''0.0001'',
      weiHex = (\<lambda>p. if p = ''0.0001'' then Inr ''5af3107a4000''
                      else Inl (Error ''RangeError''))\<rparr>"

definition cfg_set :: "string config" where
  "cfg_set = cfg_unset\<lparr>RECEIVER_SOL := ''So1Receiver'', RECEIVER_EVM := ''0xReceiver''\<rparr>"


text \<open>
  Two proof headers for the account \<open>0xABCDEF12\<close> and the nonce \<open>n1\<close>: the signature
  bytes \<open>[1, 3]\<close>, which the recovery rejects, and \<open>[1, 2]\<close>, which it accepts.
\<close>

definition hdr_bad_sig :: string where
  "hdr_bad_sig = ''metamask:0xABCDEF12:n1:AQM=''"

definition hdr_good_sig :: string where
  "hdr_good_sig = ''metamask:0xABCDEF12:n1:AQI=''"

definition request_with :: "string \<Rightarrow> request" where
  "request_with h = \<lparr>query_chain = None, x402_proof = Some h\<rparr>"

section \<open>Properties of the proof codec\<close>

subsection \<open>Splitting and base64\<close>


lemma split_colon_free: "CHR '':'' \<notin> set a \<Longrightarrow> split_colon a = [a]"
  by (induction a) (auto split: list.splits)

lemma split_colon_app:
  "CHR '':'' \<notin> set a \<Longrightarrow> split_colon (a @ CHR '':'' # r) = a # split_colon r"
  by (induction a) (auto split: list.splits)

lemma distinct_b64chars: "distinct b64chars"
  by (simp add: b64chars_def)

lemma length_b64chars: "length b64chars = 64"
  by (simp add: b64chars_def)

lemma b64_in: "v < 64 \<Longrightarrow> b64 v \<in> set b64chars"
  by (simp add: b64_def length_b64chars)

lemma b64chars_no_special:
  "CHR '':'' \<notin> set b64chars" "CHR ''='' \<notin> set b64chars"
  "CHR ''-'' \<notin> set b64chars" "CHR ''_'' \<notin> set b64chars"
  by (simp_all add: b64chars_def)

lemma unbase64_b64: "v < 64 \<Longrightarrow> unbase64 (b64 v) = Some v"
proof -
  assume v: "v < 64"
  have "map_of (zip b64chars [0..<64]) (b64chars ! v) = Some ([0..<64] ! v)"
    by (rule map_of_zip_nth) (simp_all add: length_b64chars distinct_b64chars v)
  moreover have "b64 v \<noteq> CHR ''-''" "b64 v \<noteq> CHR ''_''"
    using b64_in [OF v] b64chars_no_special by metis+
  ultimately show ?thesis using v by (simp add: unbase64_def b64_def)
qed

lemma unbase64_pad: "unbase64 (CHR ''='') = None"
proof -
  have "map_of (zip b64chars [0..<64]) (CHR ''='') = None"
    using b64chars_no_special(2) by (simp add: map_of_zip_is_None length_b64chars)
  then show ?thesis by (simp add: unbase64_def)
qed

lemma sextets_b64: "v < 64 \<Longrightarrow> sextets (b64 v # cs) = v # sextets cs"
  by (simp add: unbase64_b64)

lemma sextets_pad: "sextets (CHR ''='' # cs) = []"
  by (simp add: unbase64_pad)

lemma unat_byte_lt: "unat (a :: byte) < 256"
proof -
  have "unat a < 2 ^ LENGTH(8)" by (rule unsigned_less)
  then show ?thesis by simp
qed

lemma dm:
  fixes x y k :: nat
  assumes "x < k"
  shows "(y * k + x) div k = y" and "(y * k + x) mod k = x"
  using assms by simp_all

lemma small_div:
  fixes b c :: nat
  shows "b < 256 \<Longrightarrow> b div 16 < 16" and "c < 256 \<Longrightarrow> c div 64 < 4" and "b < 256 \<Longrightarrow> b div 4 < 64"
  by (simp_all add: less_mult_imp_div_less)

lemma byte_recombine:
  fixes a b c :: nat
  assumes "a < 256" "b < 256" "c < 256"
  shows "a div 4 * 4 + (a mod 4 * 16 + b div 16) div 16 = a"
    and "(a mod 4 * 16 + b div 16) mod 16 * 16 + (b mod 16 * 4 + c div 64) div 4 = b"
    and "(b mod 16 * 4 + c div 64) mod 4 * 64 + c mod 64 = c"
    and "a div 4 * 4 + (a mod 4 * 16) div 16 = a"
    and "(a mod 4 * 16 + b div 16) mod 16 * 16 + (b mod 16 * 4) div 4 = b"
  using small_div(1) [OF assms(2)] small_div(2) [OF assms(3)]
  by (simp_all add: dm)

lemma sextet_bounds:
  fixes a b c :: nat
  assumes "a < 256" "b < 256" "c < 256"
  shows "a div 4 < 64" "a mod 4 * 16 + b div 16 < 64" "b mod 16 * 4 + c div 64 < 64"
        "c mod 64 < 64" "a mod 4 * 16 < 64" "b mod 16 * 4 < 64"
proof -
  have "a mod 4 < 4" "b mod 16 < 16" by simp_all
  then show "a div 4 < 64" "a mod 4 * 16 + b div 16 < 64" "b mod 16 * 4 + c div 64 < 64"
        "c mod 64 < 64" "a mod 4 * 16 < 64" "b mod 16 * 4 < 64"
    using small_div(1) [OF assms(2)] small_div(2) [OF assms(3)] small_div(3) [OF assms(1)]
    by simp_all
qed


lemma decode_group3:
  fixes a b c :: nat
  assumes "a < 256" "b < 256" "c < 256"
  shows "fromSextets (a div 4 # (a mod 4 * 16 + b div 16) # (b mod 16 * 4 + c div 64) #
                       c mod 64 # vs)
         = [of_nat a, of_nat b, of_nat c] @ fromSextets vs"
  by (simp only: fromSextets.simps byte_recombine [OF assms])

lemma decode_group2:
  fixes a b :: nat
  assumes "a < 256" "b < 256"
  shows "fromSextets [a div 4, a mod 4 * 16 + b div 16, b mod 16 * 4] = [of_nat a, of_nat b]"
  by (simp only: fromSextets.simps byte_recombine [OF assms assms(2)])

lemma decode_group1:
  fixes a :: nat
  assumes "a < 256"
  shows "fromSextets [a div 4, a mod 4 * 16] = [of_nat a]"
  by (simp only: fromSextets.simps byte_recombine [OF assms assms assms])

lemma sextets_toBase64_1:
  "sextets (toBase64 [a]) = [unat a div 4, unat a mod 4 * 16]"
proof -
  note B = sextet_bounds [OF unat_byte_lt [of a] unat_byte_lt [of a] unat_byte_lt [of a]]
  show ?thesis by (simp only: toBase64.simps sextets_b64 [OF B(1)] sextets_b64 [OF B(5)] sextets_pad)
qed

lemma sextets_toBase64_2:
  "sextets (toBase64 [a, b]) =
     [unat a div 4, unat a mod 4 * 16 + unat b div 16, unat b mod 16 * 4]"
proof -
  note B = sextet_bounds [OF unat_byte_lt [of a] unat_byte_lt [of b] unat_byte_lt [of b]]
  show ?thesis
    by (simp only: toBase64.simps sextets_b64 [OF B(1)] sextets_b64 [OF B(2)]
        sextets_b64 [OF B(6)] sextets_pad)
qed

lemma sextets_toBase64_3:
  "sextets (toBase64 (a # b # c # rest)) =
     unat a div 4 # (unat a mod 4 * 16 + unat b div 16) # (unat b mod 16 * 4 + unat c div 64) #
     unat c mod 64 # sextets (toBase64 rest)"
proof -
  note B = sextet_bounds [OF unat_byte_lt [of a] unat_byte_lt [of b] unat_byte_lt [of c]]
  show ?thesis
    by (simp only: toBase64.simps append.simps sextets_b64 [OF B(1)] sextets_b64 [OF B(2)]
        sextets_b64 [OF B(3)] sextets_b64 [OF B(4)])
qed

lemma base64_roundtrip: "fromSextets (sextets (toBase64 bs)) = bs"
proof (induction bs rule: toBase64.induct)
  case 1
  show ?case by simp
next
  case (2 a)
  show ?case
    by (simp only: sextets_toBase64_1 decode_group1 [OF unat_byte_lt]) simp
next
  case (3 a b)
  show ?case
    by (simp only: sextets_toBase64_2 decode_group2 [OF unat_byte_lt unat_byte_lt]) simp
next
  case (4 a b c rest)
  show ?case
    by (simp only: sextets_toBase64_3 decode_group3 [OF unat_byte_lt unat_byte_lt unat_byte_lt]
        "4.IH") simp
qed

lemma toBase64_no_colon: "CHR '':'' \<notin> set (toBase64 bs)"
proof (induction bs rule: toBase64.induct)
  case 1
  show ?case by simp
next
  case (2 a)
  note B = sextet_bounds [OF unat_byte_lt [of a] unat_byte_lt [of a] unat_byte_lt [of a]]
  show ?case using b64_in [OF B(1)] b64_in [OF B(5)] b64chars_no_special(1) by auto
next
  case (3 a b)
  note B = sextet_bounds [OF unat_byte_lt [of a] unat_byte_lt [of b] unat_byte_lt [of b]]
  show ?case using b64_in [OF B(1)] b64_in [OF B(2)] b64_in [OF B(6)] b64chars_no_special(1) by auto
next
  case (4 a b c rest)
  note B = sextet_bounds [OF unat_byte_lt [of a] unat_byte_lt [of b] unat_byte_lt [of c]]
  show ?case using 4 b64_in [OF B(1)] b64_in [OF B(2)] b64_in [OF B(3)] b64_in [OF B(4)]
      b64chars_no_special(1) by auto
qed


lemma split_colon_header:
  assumes "CHR '':'' \<notin> set k" "CHR '':'' \<notin> set a" "CHR '':'' \<notin> set n" "CHR '':'' \<notin> set b"
  shows "split_colon (k @ '':'' @ a @ '':'' @ n @ '':'' @ b) = [k, a, n, b]"
  using assms by (simp add: split_colon_app split_colon_free)

lemma parseProof_never_bad_b64: "parseProof header \<noteq> ParseFail bad_b64"
  by (simp add: parseProof_def Buffer_from_base64_def split: option.splits list.splits)

subsection \<open>When parsing fails with \<open>bad_format\<close>\<close>




subsection \<open>A signature segment that is not base64\<close>

text \<open>
  Claim C7 at the header \<open>phantom:abc:n1:!!!!\<close>: the fourth segment is not standard
  base64, and \<open>parseProof\<close> returns a successful parse with no signature bytes, not
  \<open>bad_b64\<close>.
\<close>

theorem parseProof_invalid_base64_accepted:
  "\<not> is_standard_base64 ''!!!!'' \<and>
   parseProof (Some ''phantom:abc:n1:!!!!'') =
     Parsed \<lparr>kind = ''phantom'', account = ''abc'', nonce = ''n1'', sigBytes = []\<rparr>"
  by code_simp

subsection \<open>Round trip\<close>

text \<open>
  Claim C9. For a registered kind, an account and a nonce without colon, and any
  signature bytes, \<open>parseProof\<close> applied to
  \<open>kind:account:nonce:base64(sig)\<close> succeeds and returns the four fields. The account
  and the nonce may even be empty.
\<close>

theorem parseProof_roundtrip:
  assumes "k = ''phantom'' \<or> k = ''metamask''"
    and "CHR '':'' \<notin> set a" and "CHR '':'' \<notin> set n"
  shows "parseProof (Some (k @ '':'' @ a @ '':'' @ n @ '':'' @ toBase64 sb)) =
           Parsed \<lparr>kind = k, account = a, nonce = n, sigBytes = sb\<rparr>"
proof -
  have k: "CHR '':'' \<notin> set k" using assms(1) by auto
  have sp: "split_colon (k @ '':'' @ a @ '':'' @ n @ '':'' @ toBase64 sb) = [k, a, n, toBase64 sb]"
    using k assms(2,3) toBase64_no_colon by (rule split_colon_header)
  have ne: "k @ '':'' @ a @ '':'' @ n @ '':'' @ toBase64 sb \<noteq> []" by simp
  have kk: "\<not> (k \<noteq> ''phantom'' \<and> k \<noteq> ''metamask'')" using assms(1) by blast
  show ?thesis
    unfolding parseProof_def
    by (simp only: option.case ne if_False sp list.case kk Buffer_from_base64_def
        base64_roundtrip sum.case)
qed

theorem parseProof_roundtrip_witness:
  "(''metamask'' = ''phantom'' \<or> ''metamask'' = ''metamask'') \<and>
   CHR '':'' \<notin> set ''0xAbC1'' \<and> CHR '':'' \<notin> set ''n-17'' \<and>
   toBase64 [1, 2, 255, 77] = ''AQL/TQ=='' \<and>
   parseProof (Some ''metamask:0xAbC1:n-17:AQL/TQ=='') =
     Parsed \<lparr>kind = ''metamask'', account = ''0xAbC1'', nonce = ''n-17'',
             sigBytes = [1, 2, 255, 77]\<rparr>"
proof -
  have h1: "''metamask'' = ''phantom'' \<or> ''metamask'' = ''metamask''" by simp
  have h2: "CHR '':'' \<notin> set ''0xAbC1''" by simp
  have h3: "CHR '':'' \<notin> set ''n-17''" by simp
  have e: "toBase64 [1, 2, 255, 77] = ''AQL/TQ==''" by code_simp
  from parseProof_roundtrip [OF h1 h2 h3, of "[1, 2, 255, 77]"] h1 h2 h3 e
  show ?thesis by simp
qed

section \<open>Properties of the signature verifier\<close>

lemma demo_header_bad_sig:
  "parseProof (Some hdr_bad_sig) =
     Parsed \<lparr>kind = ''metamask'', account = ''0xABCDEF12'', nonce = ''n1'', sigBytes = [1, 3]\<rparr>"
  by code_simp

lemma demo_header_good_sig:
  "parseProof (Some hdr_good_sig) =
     Parsed \<lparr>kind = ''metamask'', account = ''0xABCDEF12'', nonce = ''n1'', sigBytes = [1, 2]\<rparr>"
  by code_simp


lemma demo_verify_good_sig:
  "verifyProof demo_libs (Some hdr_good_sig) =
     Inr \<lparr>ok = True, reason = None, who = Some ''0xAbCdEf12'', chain = Some ''evm''\<rparr>"
  by code_simp

subsection \<open>What the encodings and \<open>toLowerCase\<close> compute\<close>

lemma toHex_digits:
  "toHex [1, 35, 69, 103, 137, 171, 205, 239] = ''0123456789abcdef''"
  by (simp add: toHex_def hexchars_def)

lemma length_toHex: "length (toHex bs) = 2 * length bs"
  by (induction bs) (simp_all add: toHex_def)

lemma msgBytes_demo:
  "msgBytes ''n1'' = [120, 52, 48, 50, 45, 112, 114, 111, 111, 102, 58, 110, 49]"
  by code_simp

lemma utf8_unit_latin1: "utf8_unit (CHR 0xE9) = [195, 169]"
  by code_simp

lemma of_char_toLowerChar:
  "(of_char (toLowerChar c) :: nat) =
     (if (65 \<le> (of_char c :: nat) \<and> (of_char c :: nat) \<le> 90) \<or>
         (192 \<le> (of_char c :: nat) \<and> (of_char c :: nat) \<le> 222 \<and> (of_char c :: nat) \<noteq> 215)
      then of_char c + 32 else of_char c)"
  by (auto simp add: toLowerChar_def Let_def)

lemma toLowerChar_eq_iff: "(toLowerChar c = toLowerChar d) = same_letter c d"
proof -
  have "(toLowerChar c = toLowerChar d) =
        ((of_char (toLowerChar c) :: nat) = of_char (toLowerChar d))"
    by simp
  also have "\<dots> = same_letter c d"
    unfolding of_char_toLowerChar same_letter_def capital_def
    using of_char_eq_iff [of c d, where 'a = nat]
    by (cases "c = d") auto
  finally show ?thesis .
qed

lemma toLowerCase_eq_iff: "(toLowerCase r = toLowerCase a) = eq_ignoring_case r a"
proof -
  have "(map toLowerChar r = map toLowerChar a) =
        list_all2 (\<lambda>c d. toLowerChar c = toLowerChar d) r a"
    by (simp add: list.rel_eq [symmetric] list.rel_map del: list.rel_eq)
  then show ?thesis
    by (simp add: toLowerCase_def eq_ignoring_case_def toLowerChar_eq_iff)
qed

subsection \<open>Case-insensitive address match\<close>





subsection \<open>No exception leaves \<open>verifyProof\<close>\<close>

lemma verifyPhantom_cases:
  "(\<forall>e. bs58_decode L a = Inl e \<longrightarrow>
      verifyPhantom L a sb n =
        Inr \<lparr>ok = False, reason = Some phantom_verify_error, who = None, chain = None\<rparr>) \<and>
   (\<forall>pub. bs58_decode L a = Inr pub \<longrightarrow>
      (\<forall>e. nacl_verify L (msgBytes n) sb pub = Inl e \<longrightarrow>
         verifyPhantom L a sb n =
           Inr \<lparr>ok = False, reason = Some phantom_verify_error, who = None, chain = None\<rparr>) \<and>
      (\<forall>b. nacl_verify L (msgBytes n) sb pub = Inr b \<longrightarrow>
         verifyPhantom L a sb n =
           Inr \<lparr>ok = b, reason = None, who = Some a, chain = Some ''solana''\<rparr>))"
  by (auto simp add: verifyPhantom_def try_catch_def bind_exn_def failed_def)

lemma verifyMetaMask_cases:
  "(\<forall>e. verifyMessage L (''x402-proof:'' @ n) (''0x'' @ toHex sb) = Inl e \<longrightarrow>
      verifyMetaMask L a sb n =
        Inr \<lparr>ok = False, reason = Some metamask_verify_error, who = None, chain = None\<rparr>) \<and>
   (\<forall>r. verifyMessage L (''x402-proof:'' @ n) (''0x'' @ toHex sb) = Inr r \<longrightarrow>
      verifyMetaMask L a sb n =
        Inr \<lparr>ok = eq_ignoring_case r a, reason = None, who = Some r, chain = Some ''evm''\<rparr>)"
  by (auto simp add: verifyMetaMask_def msgText_def try_catch_def bind_exn_def failed_def
      toLowerCase_eq_iff)

lemma verifyPhantom_returns: "\<exists>v. verifyPhantom L a sb n = Inr v"
  by (simp add: verifyPhantom_def try_catch_def bind_exn_def split: sum.splits)

lemma verifyMetaMask_returns: "\<exists>v. verifyMetaMask L a sb n = Inr v"
  by (simp add: verifyMetaMask_def try_catch_def bind_exn_def split: sum.splits)

lemma parsed_kind: "parseProof header = Parsed p \<Longrightarrow> kind p = ''phantom'' \<or> kind p = ''metamask''"
  by (auto simp add: parseProof_def Buffer_from_base64_def split: option.splits list.splits if_splits)

text \<open>
  Claim C8, as the code has it. For every header and every behaviour of the three
  libraries, throwing included, \<open>verifyProof\<close> returns a verdict, and the verdict is
  the following. When parsing fails: \<open>ok\<close> false with the parse reason. When the key
  decoding or the detached check throws: \<open>ok\<close> false with \<open>phantom_verify_error\<close>; when
  the address recovery throws: \<open>ok\<close> false with \<open>metamask_verify_error\<close>. When the
  libraries return: no reason code, \<open>who\<close> and \<open>chain\<close> are set, and \<open>ok\<close> is what
  the detached check returned, or whether the recovered address matches the account
  up to letter case; so a signature that does not match gives \<open>ok\<close> false without a
  reason code.
\<close>

theorem verifyProof_never_throws:
  "\<exists>v. verifyProof L header = Inr v \<and>
     (\<forall>r. parseProof header = ParseFail r \<longrightarrow>
        v = \<lparr>ok = False, reason = Some r, who = None, chain = None\<rparr>) \<and>
     (\<forall>p. parseProof header = Parsed p \<longrightarrow> kind p = ''phantom'' \<or> kind p = ''metamask'') \<and>
     (\<forall>p. parseProof header = Parsed p \<and> kind p = ''phantom'' \<longrightarrow>
        (\<forall>e. bs58_decode L (account p) = Inl e \<longrightarrow>
           v = \<lparr>ok = False, reason = Some phantom_verify_error, who = None, chain = None\<rparr>) \<and>
        (\<forall>pub. bs58_decode L (account p) = Inr pub \<longrightarrow>
           (\<forall>e. nacl_verify L (msgBytes (nonce p)) (sigBytes p) pub = Inl e \<longrightarrow>
              v = \<lparr>ok = False, reason = Some phantom_verify_error, who = None, chain = None\<rparr>) \<and>
           (\<forall>b. nacl_verify L (msgBytes (nonce p)) (sigBytes p) pub = Inr b \<longrightarrow>
              v = \<lparr>ok = b, reason = None, who = Some (account p), chain = Some ''solana''\<rparr>))) \<and>
     (\<forall>p. parseProof header = Parsed p \<and> kind p = ''metamask'' \<longrightarrow>
        (\<forall>e. verifyMessage L (''x402-proof:'' @ nonce p) (''0x'' @ toHex (sigBytes p)) = Inl e \<longrightarrow>
           v = \<lparr>ok = False, reason = Some metamask_verify_error, who = None, chain = None\<rparr>) \<and>
        (\<forall>r. verifyMessage L (''x402-proof:'' @ nonce p) (''0x'' @ toHex (sigBytes p)) = Inr r \<longrightarrow>
           v = \<lparr>ok = eq_ignoring_case r (account p), reason = None, who = Some r,
                 chain = Some ''evm''\<rparr>))"
proof (cases "parseProof header")
  case (ParseFail r)
  then show ?thesis by (simp add: verifyProof_def failed_def)
next
  case (Parsed p)
  from parsed_kind [OF Parsed] show ?thesis
  proof
    assume k: "kind p = ''phantom''"
    obtain v where v: "verifyPhantom L (account p) (sigBytes p) (nonce p) = Inr v"
      using verifyPhantom_returns by blast
    have vp: "verifyProof L header = Inr v" using Parsed k v by (simp add: verifyProof_def)
    show ?thesis
      using verifyPhantom_cases [of L "account p" "sigBytes p" "nonce p"] Parsed k v vp
      by auto
  next
    assume k: "kind p = ''metamask''"
    obtain v where v: "verifyMetaMask L (account p) (sigBytes p) (nonce p) = Inr v"
      using verifyMetaMask_returns by blast
    have vp: "verifyProof L header = Inr v" using Parsed k v by (simp add: verifyProof_def)
    show ?thesis
      using verifyMetaMask_cases [of L "nonce p" "sigBytes p" "account p"] Parsed k v vp
      by auto
  qed
qed

theorem verifyProof_never_throws_witness:
  "verifyProof demo_libs (Some hdr_bad_sig) =
     Inr \<lparr>ok = False, reason = Some metamask_verify_error, who = None, chain = None\<rparr> \<and>
   verifyProof demo_libs (Some ''a:b:c'') =
     Inr \<lparr>ok = False, reason = Some bad_format, who = None, chain = None\<rparr>"
proof -
  let ?p = "\<lparr>kind = ''metamask'', account = ''0xABCDEF12'', nonce = ''n1'', sigBytes = [1, 3]\<rparr>"
  have t: "verifyMessage demo_libs (''x402-proof:'' @ nonce ?p) (''0x'' @ toHex (sigBytes ?p)) =
             Inl (Error ''invalid signature'')"
    by (simp add: demo_libs_def toHex_def hexchars_def)
  have k: "kind ?p = ''metamask''" by simp
  from verifyProof_never_throws [of demo_libs "Some hdr_bad_sig"]
  obtain v where v: "verifyProof demo_libs (Some hdr_bad_sig) = Inr v"
    and m: "\<forall>p. parseProof (Some hdr_bad_sig) = Parsed p \<and> kind p = ''metamask'' \<longrightarrow>
        (\<forall>e. verifyMessage demo_libs (''x402-proof:'' @ nonce p) (''0x'' @ toHex (sigBytes p)) = Inl e \<longrightarrow>
           v = \<lparr>ok = False, reason = Some metamask_verify_error, who = None, chain = None\<rparr>) \<and>
        (\<forall>r. verifyMessage demo_libs (''x402-proof:'' @ nonce p) (''0x'' @ toHex (sigBytes p)) = Inr r \<longrightarrow>
           v = \<lparr>ok = eq_ignoring_case r (account p), reason = None, who = Some r,
                 chain = Some ''evm''\<rparr>)"
    by (elim exE conjE)
  from m demo_header_bad_sig k t
  have "v = \<lparr>ok = False, reason = Some metamask_verify_error, who = None, chain = None\<rparr>"
    by blast
  with v have 1: "verifyProof demo_libs (Some hdr_bad_sig) =
     Inr \<lparr>ok = False, reason = Some metamask_verify_error, who = None, chain = None\<rparr>"
    by simp
  have pf: "parseProof (Some ''a:b:c'') = ParseFail bad_format"
    by (simp add: parseProof_def)
  from verifyProof_never_throws [of demo_libs "Some ''a:b:c''"]
  obtain w where w: "verifyProof demo_libs (Some ''a:b:c'') = Inr w"
    and f: "\<forall>r. parseProof (Some ''a:b:c'') = ParseFail r \<longrightarrow>
        w = \<lparr>ok = False, reason = Some r, who = None, chain = None\<rparr>"
    by (elim exE conjE)
  from f pf have "w = \<lparr>ok = False, reason = Some bad_format, who = None, chain = None\<rparr>"
    by blast
  with w have 2: "verifyProof demo_libs (Some ''a:b:c'') =
     Inr \<lparr>ok = False, reason = Some bad_format, who = None, chain = None\<rparr>"
    by simp
  from 1 2 show ?thesis by (rule conjI)
qed

text \<open>
  The claim as stated fails: a signature of the right size that the detached check
  rejects gives a verdict with \<open>ok\<close> false and no reason code.
\<close>

theorem verifyProof_failure_without_reason_counterexample:
  "verifyProof demo_libs (Some hdr_phantom_rejected) =
     Inr \<lparr>ok = False, reason = None, who = Some ''11111111111111111111111111111111'',
          chain = Some ''solana''\<rparr>"
  by code_simp

section \<open>Properties of the nonce ledger\<close>

subsection \<open>Frame lemmas of the three operations\<close>

lemma ttl_issue: "ttl (snd (issue u t s)) = ttl s" by (simp add: issue_def)
lemma ttl_gc: "ttl (gc t s) = ttl s" by (simp add: gc_def)
lemma ttl_verifyAndUse: "ttl (snd (verifyAndUse n t s)) = ttl s"
  by (simp add: verifyAndUse_def split: option.splits)

lemma isUsed_issue: "n \<noteq> u \<Longrightarrow> isUsed n (snd (issue u t s)) = isUsed n s"
  by (simp add: isUsed_def issue_def)
lemma isUsed_gc: "isUsed n s \<Longrightarrow> isUsed n (gc t s)"
  by (auto simp add: isUsed_def gc_def split: option.splits)
lemma isUsed_verifyAndUse: "isUsed n s \<Longrightarrow> isUsed n (snd (verifyAndUse m t s))"
  by (auto simp add: isUsed_def verifyAndUse_def split: option.splits)
lemma verifyAndUse_isUsed_fails: "isUsed n s \<Longrightarrow> fst (verifyAndUse n t s) \<noteq> NonceOk"
  by (auto simp add: isUsed_def verifyAndUse_def split: option.splits)
lemma verifyAndUse_ok_isUsed: "verifyAndUse n t s = (NonceOk, s') \<Longrightarrow> isUsed n s'"
  by (auto simp add: isUsed_def verifyAndUse_def split: option.splits if_splits)

lemma used_no_success:
  "isUsed n s \<Longrightarrow> n \<notin> set (issued ops) \<Longrightarrow> n \<notin> fst ` set (successes s ops)"
proof (induction s ops rule: successes.induct)
  case (1 s) then show ?case by simp
next
  case (2 s uuid now ops)
  then show ?case by (simp add: isUsed_issue)
next
  case (3 s m now ops)
  show ?case
  proof (cases "verifyAndUse m now s")
    case (Pair r s')
    have u: "isUsed n s'" using isUsed_verifyAndUse [OF "3.prems"(1), of m now] Pair by simp
    show ?thesis
    proof (cases r)
      case NonceOk
      have "m \<noteq> n" using verifyAndUse_isUsed_fails [OF "3.prems"(1), of now] Pair NonceOk by auto
      moreover have "n \<notin> fst ` set (successes s' ops)"
        using "3.IH"(1) [OF Pair [symmetric] NonceOk u] "3.prems"(2) by simp
      ultimately show ?thesis using Pair NonceOk by simp
    next
      case (NonceFail x)
      have "n \<notin> fst ` set (successes s' ops)"
        using "3.IH"(2) [OF Pair [symmetric] NonceFail u] "3.prems"(2) by simp
      then show ?thesis using Pair NonceFail by simp
    qed
  qed
next
  case (4 s now ops)
  then show ?case by (simp add: isUsed_gc)
qed


lemma unissued_once:
  "n \<notin> set (issued ops) \<Longrightarrow> length (filter (\<lambda>x. fst x = n) (successes s ops)) \<le> 1"
proof (induction s ops rule: successes.induct)
  case (1 s) then show ?case by simp
next
  case (2 s uuid now ops)
  then show ?case by simp
next
  case (3 s m now ops)
  show ?case
  proof (cases "verifyAndUse m now s")
    case (Pair r s')
    show ?thesis
    proof (cases r)
      case NonceOk
      show ?thesis
      proof (cases "m = n")
        case True
        have "isUsed n s'" using verifyAndUse_ok_isUsed Pair NonceOk True by blast
        then have "n \<notin> fst ` set (successes s' ops)"
          using used_no_success "3.prems" by simp
        then have "filter (\<lambda>x. fst x = n) (successes s' ops) = []"
          by (auto simp: filter_empty_conv)
        then show ?thesis using Pair NonceOk True by simp
      next
        case False
        then show ?thesis using "3.IH"(1) [OF Pair [symmetric] NonceOk] "3.prems" Pair NonceOk by simp
      qed
    next
      case (NonceFail x)
      then show ?thesis using "3.IH"(2) [OF Pair [symmetric] NonceFail] "3.prems" Pair by simp
    qed
  qed
next
  case (4 s now ops)
  then show ?case by simp
qed

lemma absent_issue: "n \<noteq> u \<Longrightarrow> nonce_map (snd (issue u t s)) n = nonce_map s n"
  by (simp add: issue_def)
lemma absent_gc: "nonce_map s n = None \<Longrightarrow> nonce_map (gc t s) n = None"
  by (simp add: gc_def)
lemma absent_verifyAndUse: "nonce_map s n = None \<Longrightarrow> nonce_map (snd (verifyAndUse m t s)) n = None"
  by (auto simp add: verifyAndUse_def split: option.splits)
lemma absent_fails: "nonce_map s n = None \<Longrightarrow> fst (verifyAndUse n t s) \<noteq> NonceOk"
  by (simp add: verifyAndUse_def)

lemma fresh_once:
  "nonce_map s n = None \<Longrightarrow> distinct (issued ops) \<Longrightarrow>
     length (filter (\<lambda>x. fst x = n) (successes s ops)) \<le> 1"
proof (induction s ops rule: successes.induct)
  case (1 s) then show ?case by simp
next
  case (2 s uuid now ops)
  show ?case
  proof (cases "uuid = n")
    case True
    then have "n \<notin> set (issued ops)" using "2.prems" by simp
    then show ?thesis using unissued_once by simp
  next
    case False
    then have "nonce_map (snd (issue uuid now s)) n = None"
      using "2.prems"(1) by (simp add: absent_issue)
    then show ?thesis using "2.IH" "2.prems"(2) by simp
  qed
next
  case (3 s m now ops)
  show ?case
  proof (cases "verifyAndUse m now s")
    case (Pair r s')
    have a: "nonce_map s' n = None" using absent_verifyAndUse [OF "3.prems"(1), of m now] Pair by simp
    show ?thesis
    proof (cases r)
      case NonceOk
      have "m \<noteq> n" using absent_fails [OF "3.prems"(1), of now] Pair NonceOk by auto
      then show ?thesis using "3.IH"(1) [OF Pair [symmetric] NonceOk a] "3.prems"(2) Pair NonceOk by simp
    next
      case (NonceFail x)
      then show ?thesis using "3.IH"(2) [OF Pair [symmetric] NonceFail a] "3.prems"(2) Pair by simp
    qed
  qed
next
  case (4 s now ops)
  then show ?case by (simp add: absent_gc)
qed


lemma entry_issue:
  "nonce_map (snd (issue u t0 s)) n = Some e \<Longrightarrow>
     (n = u \<and> expiresAt e = t0 + ttl s * 1000) \<or> (n \<noteq> u \<and> nonce_map s n = Some e)"
  by (auto simp add: issue_def split: if_splits)

lemma entry_gc: "nonce_map (gc t s) n = Some e \<Longrightarrow> nonce_map s n = Some e"
  by (auto simp add: gc_def split: option.splits if_splits)

lemma entry_verifyAndUse:
  "nonce_map (snd (verifyAndUse m t s)) n = Some e \<Longrightarrow>
     \<exists>e0. nonce_map s n = Some e0 \<and> expiresAt e0 = expiresAt e"
  by (auto simp add: verifyAndUse_def split: option.splits if_splits)

lemma verifyAndUse_ok_in_time:
  "verifyAndUse n t s = (NonceOk, s') \<Longrightarrow> \<exists>e. nonce_map s n = Some e \<and> t \<le> expiresAt e"
  by (auto simp add: verifyAndUse_def split: option.splits if_splits)

lemma success_in_time:
  "(n, t) \<in> set (successes s ops) \<Longrightarrow>
     (\<exists>e. nonce_map s n = Some e \<and> t \<le> expiresAt e) \<or>
     (\<exists>t0. Issue n t0 \<in> set ops \<and> t \<le> t0 + ttl s * 1000)"
proof (induction s ops rule: successes.induct)
  case (1 s) then show ?case by simp
next
  case (2 s uuid now ops)
  from "2.prems" have "(n, t) \<in> set (successes (snd (issue uuid now s)) ops)" by simp
  from "2.IH" [OF this] show ?case
  proof
    assume "\<exists>e. nonce_map (snd (issue uuid now s)) n = Some e \<and> t \<le> expiresAt e"
    then obtain e where e: "nonce_map (snd (issue uuid now s)) n = Some e" "t \<le> expiresAt e"
      by blast
    from entry_issue [OF e(1)] e(2) show ?thesis by auto
  next
    assume "\<exists>t0. Issue n t0 \<in> set ops \<and> t \<le> t0 + ttl (snd (issue uuid now s)) * 1000"
    then show ?thesis by (auto simp: ttl_issue)
  qed
next
  case (3 s m now ops)
  show ?case
  proof (cases "verifyAndUse m now s")
    case (Pair r s')
    have ttl': "ttl s' = ttl s" using ttl_verifyAndUse [of m now s] Pair by simp
    have later: "(n, t) \<in> set (successes s' ops) \<Longrightarrow> ?thesis"
    proof -
      assume a: "(n, t) \<in> set (successes s' ops)"
      have "(\<exists>e. nonce_map s' n = Some e \<and> t \<le> expiresAt e) \<or>
            (\<exists>t0. Issue n t0 \<in> set ops \<and> t \<le> t0 + ttl s' * 1000)"
      proof (cases r)
        case NonceOk
        from "3.IH"(1) [OF Pair [symmetric] NonceOk a] show ?thesis .
      next
        case (NonceFail x)
        from "3.IH"(2) [OF Pair [symmetric] NonceFail a] show ?thesis .
      qed
      then show ?thesis
      proof
        assume "\<exists>e. nonce_map s' n = Some e \<and> t \<le> expiresAt e"
        then obtain e where e: "nonce_map s' n = Some e" "t \<le> expiresAt e" by blast
        have "nonce_map (snd (verifyAndUse m now s)) n = Some e" using e(1) Pair by simp
        from entry_verifyAndUse [OF this] e(2) show ?thesis by auto
      next
        assume "\<exists>t0. Issue n t0 \<in> set ops \<and> t \<le> t0 + ttl s' * 1000"
        then show ?thesis using ttl' by auto
      qed
    qed
    show ?thesis
    proof (cases r)
      case NonceOk
      from "3.prems" Pair NonceOk have "(n, t) = (m, now) \<or> (n, t) \<in> set (successes s' ops)"
        by simp
      then show ?thesis
      proof
        assume "(n, t) = (m, now)"
        then show ?thesis using verifyAndUse_ok_in_time Pair NonceOk by blast
      next
        assume "(n, t) \<in> set (successes s' ops)"
        then show ?thesis by (rule later)
      qed
    next
      case (NonceFail x)
      from "3.prems" Pair NonceFail have "(n, t) \<in> set (successes s' ops)" by simp
      then show ?thesis by (rule later)
    qed
  qed
next
  case (4 s now ops)
  from "4.prems" have "(n, t) \<in> set (successes (gc now s) ops)" by simp
  from "4.IH" [OF this] show ?case
    by (auto simp: ttl_gc dest: entry_gc)
qed

lemma Issue_in_issued: "Issue n t \<in> set ops \<Longrightarrow> n \<in> set (issued ops)"
  by (induction ops rule: issued.induct) auto

lemma distinct_issue_time:
  "distinct (issued ops) \<Longrightarrow> Issue n a \<in> set ops \<Longrightarrow> Issue n b \<in> set ops \<Longrightarrow> a = b"
  by (induction ops rule: issued.induct) (auto dest: Issue_in_issued)


subsection \<open>The order of the checks in \<open>verifyAndUse\<close>\<close>

text \<open>
  Claim C2. For every token and every store, \<open>verifyAndUse\<close> answers \<open>nonce_not_found\<close>
  when the token has no entry; otherwise \<open>nonce_expired\<close> when the current time exceeds
  the entry's expiry, whether or not the entry is used; otherwise \<open>nonce_replayed\<close> when
  the entry is marked used; otherwise it marks the entry used and answers success. In
  the three failing cases the store is unchanged.
\<close>

theorem verifyAndUse_order:
  "(nonce_map s n = None \<longrightarrow> verifyAndUse n now s = (NonceFail nonce_not_found, s)) \<and>
   (\<forall>e. nonce_map s n = Some e \<and> now > expiresAt e \<longrightarrow>
        verifyAndUse n now s = (NonceFail nonce_expired, s)) \<and>
   (\<forall>e. nonce_map s n = Some e \<and> now \<le> expiresAt e \<and> used e \<longrightarrow>
        verifyAndUse n now s = (NonceFail nonce_replayed, s)) \<and>
   (\<forall>e. nonce_map s n = Some e \<and> now \<le> expiresAt e \<and> \<not> used e \<longrightarrow>
        verifyAndUse n now s =
          (NonceOk, s\<lparr>nonce_map := (nonce_map s)(n \<mapsto> e\<lparr>used := True\<rparr>)\<rparr>))"
  by (simp add: verifyAndUse_def)

theorem verifyAndUse_order_witness:
  "verifyAndUse ''n0'' 5 store_fresh = (NonceFail nonce_not_found, store_fresh) \<and>
   verifyAndUse ''n1'' 2001 store_used = (NonceFail nonce_expired, store_used) \<and>
   verifyAndUse ''n1'' 1500 store_used = (NonceFail nonce_replayed, store_used) \<and>
   verifyAndUse ''n1'' 1500 store_fresh = (NonceOk, store_used)"
proof -
  let ?e = "\<lparr>createdAt = 1000, expiresAt = 2000, used = False\<rparr>"
  let ?u = "\<lparr>createdAt = 1000, expiresAt = 2000, used = True\<rparr>"
  have a: "nonce_map store_fresh ''n0'' = None"
    by (simp add: store_fresh_def)
  have b: "nonce_map store_used ''n1'' = Some ?u \<and> (2001::int) > expiresAt ?u"
    by (simp add: store_used_def)
  have c: "nonce_map store_used ''n1'' = Some ?u \<and> (1500::int) \<le> expiresAt ?u \<and> used ?u"
    by (simp add: store_used_def)
  have d: "nonce_map store_fresh ''n1'' = Some ?e \<and> (1500::int) \<le> expiresAt ?e \<and> \<not> used ?e"
    by (simp add: store_fresh_def)
  have upd: "store_fresh\<lparr>nonce_map := (nonce_map store_fresh)(''n1'' \<mapsto> ?e\<lparr>used := True\<rparr>)\<rparr>
             = store_used"
    by (simp add: store_fresh_def store_used_def)
  from verifyAndUse_order [of store_fresh "''n0''" 5] a
  have 1: "verifyAndUse ''n0'' 5 store_fresh = (NonceFail nonce_not_found, store_fresh)"
    by blast
  from verifyAndUse_order [of store_used "''n1''" 2001] b
  have 2: "verifyAndUse ''n1'' 2001 store_used = (NonceFail nonce_expired, store_used)"
    by blast
  from verifyAndUse_order [of store_used "''n1''" 1500] c
  have 3: "verifyAndUse ''n1'' 1500 store_used = (NonceFail nonce_replayed, store_used)"
    by blast
  from verifyAndUse_order [of store_fresh "''n1''" 1500] d
  have "verifyAndUse ''n1'' 1500 store_fresh =
          (NonceOk, store_fresh\<lparr>nonce_map := (nonce_map store_fresh)(''n1'' \<mapsto> ?e\<lparr>used := True\<rparr>)\<rparr>)"
    by blast
  then have 4: "verifyAndUse ''n1'' 1500 store_fresh = (NonceOk, store_used)"
    by (simp only: upd)
  from 1 2 3 4 show ?thesis by blast
qed

subsection \<open>A nonce is used at most once, and never after its expiry\<close>

text \<open>
  Claim C3. Over every sequence of \<open>issue\<close>, \<open>verifyAndUse\<close> and \<open>gc\<close> operations run
  from the empty store of the constructor, in which \<open>uuidv4\<close> never returns the same
  identifier twice: for each nonce at most one call of \<open>verifyAndUse\<close> succeeds, and a
  call that succeeds at time \<open>t\<close> is not later than the expiry timestamp of the nonce,
  which is its one time of issue plus the time to live in milliseconds.
\<close>

theorem nonce_used_at_most_once_and_not_after_expiry:
  assumes "distinct (issued ops)"
  shows "length (filter (\<lambda>x. fst x = n) (successes (new_NonceStore ttlSeconds) ops)) \<le> 1 \<and>
         (\<forall>t. (n, t) \<in> set (successes (new_NonceStore ttlSeconds) ops) \<longrightarrow>
            (\<exists>t0. Issue n t0 \<in> set ops \<and> (\<forall>t1. Issue n t1 \<in> set ops \<longrightarrow> t1 = t0) \<and>
                  t \<le> t0 + ttlSeconds * 1000))"
proof
  have "nonce_map (new_NonceStore ttlSeconds) n = None" by (simp add: new_NonceStore_def)
  then show "length (filter (\<lambda>x. fst x = n) (successes (new_NonceStore ttlSeconds) ops)) \<le> 1"
    using assms by (rule fresh_once)
next
  show "\<forall>t. (n, t) \<in> set (successes (new_NonceStore ttlSeconds) ops) \<longrightarrow>
            (\<exists>t0. Issue n t0 \<in> set ops \<and> (\<forall>t1. Issue n t1 \<in> set ops \<longrightarrow> t1 = t0) \<and>
                  t \<le> t0 + ttlSeconds * 1000)"
  proof (intro allI impI)
    fix t assume "(n, t) \<in> set (successes (new_NonceStore ttlSeconds) ops)"
    from success_in_time [OF this]
    obtain t0 where t0: "Issue n t0 \<in> set ops" "t \<le> t0 + ttlSeconds * 1000"
      by (auto simp: new_NonceStore_def)
    moreover have "\<forall>t1. Issue n t1 \<in> set ops \<longrightarrow> t1 = t0"
      using distinct_issue_time [OF assms _ t0(1)] by blast
    ultimately show "\<exists>t0. Issue n t0 \<in> set ops \<and> (\<forall>t1. Issue n t1 \<in> set ops \<longrightarrow> t1 = t0) \<and>
                  t \<le> t0 + ttlSeconds * 1000" by blast
  qed
qed

theorem nonce_used_at_most_once_witness:
  "distinct (issued demo_ops) \<and>
   successes (new_NonceStore 1) demo_ops = [(''n1'', 10)] \<and>
   length (filter (\<lambda>x. fst x = ''n1'') (successes (new_NonceStore 1) demo_ops)) \<le> 1 \<and>
   (\<exists>t0. Issue ''n1'' t0 \<in> set demo_ops \<and> 10 \<le> t0 + 1 * 1000)"
proof -
  have d: "distinct (issued demo_ops)" by (simp add: demo_ops_def)
  have s: "successes (new_NonceStore 1) demo_ops = [(''n1'', 10)]"
    by (simp add: demo_ops_def new_NonceStore_def issue_def verifyAndUse_def gc_def)
  have m: "(''n1'', 10) \<in> set (successes (new_NonceStore 1) demo_ops)" by (simp add: s)
  from nonce_used_at_most_once_and_not_after_expiry [OF d, of "''n1''" 1] d s m
  show ?thesis by blast
qed

section \<open>Properties of the payment gate\<close>

lemma send402_frame:
  "\<exists>out. send402 cfg ch uuid now s = (out, snd (issue uuid now s), [CallIssue uuid]) \<and>
         ((\<exists>c r a e. out = Responded 402 (X402 c r a (TTL_SECONDS cfg) uuid e)) \<or>
          (\<exists>t. out = Responded 500 (ErrorText t)) \<or> (\<exists>x. out = Threw x))"
  by (auto simp add: send402_def issue_def split: sum.splits)

lemma send402_challenge:
  assumes "RECEIVER_SOL cfg \<noteq> []" "RECEIVER_EVM cfg \<noteq> []" "weiHex cfg (PRICE_ETH cfg) = Inr w"
  shows "\<exists>c r a e. fst (send402 cfg ch uuid now s) = Responded 402 (X402 c r a (TTL_SECONDS cfg) uuid e)"
  using assms by (simp add: send402_def issue_def)

lemma send402_unset:
  assumes "if ch = ''evm'' then RECEIVER_EVM cfg = [] else RECEIVER_SOL cfg = []"
  shows "\<exists>t. fst (send402 cfg ch uuid now s) = Responded 500 (ErrorText t)"
  using assms by (simp add: send402_def issue_def split: if_splits)

lemma issue_frame: "m \<noteq> uuid \<Longrightarrow> nonce_map (snd (issue uuid now s)) m = nonce_map s m"
  by (simp add: issue_def)


subsection \<open>An invalid proof never reaches the ledger\<close>




subsection \<open>A nonce failure issues no fresh nonce\<close>

text \<open>
  Claim C5. When the proof parses and verifies and \<open>verifyAndUse\<close> on its nonce fails,
  the gate answers with status 402 and that reason (\<open>nonce_not_found\<close>,
  \<open>nonce_expired\<close> or \<open>nonce_replayed\<close>); it does not call \<open>issue\<close>, and the store is
  unchanged.
\<close>

theorem nonce_failure_no_fresh_nonce:
  assumes "x402_proof req = Some h"
    and "parseProof (Some h) = Parsed p"
    and "verifyProof L (Some h) = Inr v" "ok v"
    and "fst (verifyAndUse (nonce p) now s) = NonceFail r"
  shows "handlePremium L cfg req uuid now s =
           (Responded 402 (ErrorReason r), s, [CallVerifyAndUse (Some (nonce p))]) \<and>
         (r = nonce_not_found \<or> r = nonce_expired \<or> r = nonce_replayed)"
proof -
  have ne: "h \<noteq> []"
    using assms(2) by (auto simp add: parseProof_def)
  have vu: "verifyAndUse (nonce p) now s = (NonceFail r, s)"
    using assms(5) by (auto simp add: verifyAndUse_def split: option.splits if_splits)
  have r: "r = nonce_not_found \<or> r = nonce_expired \<or> r = nonce_replayed"
    using assms(5) by (auto simp add: verifyAndUse_def split: option.splits if_splits)
  show ?thesis using assms(1-4) ne vu r by (simp add: handlePremium_def Let_def)
qed

theorem nonce_failure_no_fresh_nonce_witness:
  "x402_proof (request_with hdr_good_sig) = Some hdr_good_sig \<and>
   fst (verifyAndUse ''n1'' 1500 store_used) = NonceFail nonce_replayed \<and>
   handlePremium demo_libs cfg_set (request_with hdr_good_sig) ''u1'' 1500 store_used =
     (Responded 402 (ErrorReason nonce_replayed), store_used, [CallVerifyAndUse (Some ''n1'')])"
proof -
  let ?h = "hdr_good_sig"
  let ?p = "\<lparr>kind = ''metamask'', account = ''0xABCDEF12'', nonce = ''n1'', sigBytes = [1, 2]\<rparr>"
  let ?v = "\<lparr>ok = True, reason = None, who = Some ''0xAbCdEf12'', chain = Some ''evm''\<rparr>"
  have h1: "x402_proof (request_with ?h) = Some ?h" by (simp add: request_with_def)
  have h5: "ok ?v" by simp
  have h6: "fst (verifyAndUse (nonce ?p) 1500 store_used) = NonceFail nonce_replayed"
    by (simp add: verifyAndUse_def store_used_def)
  from nonce_failure_no_fresh_nonce [OF h1 demo_header_good_sig demo_verify_good_sig h5 h6,
      of cfg_set "''u1''"] h1 h6
  show ?thesis by simp
qed

subsection \<open>\<open>send402\<close> issues before it checks the receiver\<close>

text \<open>
  Claim C10. \<open>send402\<close> records a fresh nonce before it looks at the receiver of the
  chosen chain: the answer HTTP 500 for a receiver that is not set comes with the store
  that \<open>issue\<close> returned, in which the new, unused entry is present, while the body of
  the answer does not carry the nonce.
\<close>

theorem send402_issues_before_receiver_check:
  "(ch = ''evm'' \<and> RECEIVER_EVM cfg = [] \<longrightarrow>
      send402 cfg ch uuid now s =
        (Responded 500 (ErrorText ''RECEIVER_EVM not set''), snd (issue uuid now s),
         [CallIssue uuid])) \<and>
   (ch \<noteq> ''evm'' \<and> RECEIVER_SOL cfg = [] \<longrightarrow>
      send402 cfg ch uuid now s =
        (Responded 500 (ErrorText ''RECEIVER_SOL not set''), snd (issue uuid now s),
         [CallIssue uuid])) \<and>
   nonce_map (snd (issue uuid now s)) uuid =
     Some \<lparr>createdAt = now, expiresAt = now + ttl s * 1000, used = False\<rparr>"
  by (simp add: send402_def issue_def)

theorem send402_issues_before_receiver_check_witness:
  "RECEIVER_EVM cfg_unset = [] \<and> RECEIVER_SOL cfg_unset = [] \<and>
   send402 cfg_unset ''evm'' ''u1'' 7 (new_NonceStore 300) =
     (Responded 500 (ErrorText ''RECEIVER_EVM not set''),
      snd (issue ''u1'' 7 (new_NonceStore 300)), [CallIssue ''u1'']) \<and>
   send402 cfg_unset ''solana'' ''u2'' 8 (new_NonceStore 300) =
     (Responded 500 (ErrorText ''RECEIVER_SOL not set''),
      snd (issue ''u2'' 8 (new_NonceStore 300)), [CallIssue ''u2'']) \<and>
   nonce_map (snd (issue ''u1'' 7 (new_NonceStore 300))) ''u1'' =
     Some \<lparr>createdAt = 7, expiresAt = 300007, used = False\<rparr>"
proof -
  have a: "RECEIVER_EVM cfg_unset = []" "RECEIVER_SOL cfg_unset = []"
    by (simp_all add: cfg_unset_def)
  have b: "''solana'' \<noteq> ''evm''" by simp
  have t: "ttl (new_NonceStore 300) = 300" by (simp add: new_NonceStore_def)
  from send402_issues_before_receiver_check [of "''evm''" cfg_unset "''u1''" 7 "new_NonceStore 300"]
       send402_issues_before_receiver_check [of "''solana''" cfg_unset "''u2''" 8 "new_NonceStore 300"]
       a b t
  show ?thesis by simp
qed

end
